theory Spec2Isabelle
  imports Main "HOL-Library.Word" "HOL-Library.Multiset"
begin

section \<open>The memory-mapped store (api/mmap\_impl/mmapFile.h)\<close>

text \<open>
  \<open>size_t\<close> is the 64-bit unsigned machine word of the file format: \<open>+\<close>, \<open>*\<close> wrap
  modulo \<open>2 ^ 64\<close>, \<open>div\<close> truncates, comparisons are unsigned. \<open>sizeof(size_t)\<close> is 8.
\<close>

type_synonym size_t = "64 word"

text \<open>
  Errors of the program as values. \<open>CapacityExceeded n\<close> is the \<open>hal_exception\<close>
  "mmap file is full, specify file size larger than n" of \<open>allocMem\<close>,
  \<open>WriteAccessRequired\<close> the one of \<open>validateWriteAccess\<close>, \<open>AssertionFailed\<close> a failed
  \<open>assert\<close> (only in builds without \<open>NDEBUG\<close>), \<open>OutOfRange\<close> an access past the
  end of a \<open>std::vector\<close>, which C++ leaves undefined.
\<close>

datatype error = CapacityExceeded size_t | WriteAccessRequired | AssertionFailed | OutOfRange

definition MMAP_NULL_OFFSET :: size_t where
  "MMAP_NULL_OFFSET = 0"

record MMapHeader =
  format :: string
  mmapVersion :: string
  halVersion :: string
  nextOffset :: size_t
  rootOffset :: size_t
  dirty :: bool

text \<open>
  The fields of \<open>class MMapFile\<close>. \<open>writeAccess\<close> is the value of
  \<open>_mode & WRITE_ACCESS\<close> (the constant is declared in halDefs.h); \<open>fetched\<close> logs the
  calls of the virtual hook \<open>fetch(offset, accessSize)\<close>, whose default body is empty.
\<close>

record MMapFile =
  alignmentPath :: string
  writeAccess :: bool
  basePtr :: size_t
  header :: MMapHeader
  fileSize :: size_t
  mustFetch :: bool
  fetched :: "(size_t \<times> size_t) list"

definition isReadOnly :: "MMapFile \<Rightarrow> bool" where
  "isReadOnly f = (\<not> writeAccess f)"

definition alignRound :: "size_t \<Rightarrow> size_t" where
  "alignRound sz = ((sz + (8 - 1)) div 8) * 8"

text \<open>
  Modelled from the spec: \<open>validateWriteAccess\<close> is declared in mmapFile.h and defined
  in a file that is not part of the sources; the specification makes allocation
  "write-mode only", so a read-only file raises here.
\<close>

definition validateWriteAccess :: "MMapFile \<Rightarrow> error option" where
  "validateWriteAccess f =
     (if isReadOnly f then Some WriteAccessRequired else None)"

text \<open>
  \<open>getRootOffset\<close>: the assertion is compiled out when \<open>ndebug\<close> holds.
\<close>

definition getRootOffset :: "bool \<Rightarrow> MMapFile \<Rightarrow> error + size_t" where
  "getRootOffset ndebug f =
     (if \<not> ndebug \<and> \<not> (rootOffset (header f) > 0) then Inl AssertionFailed
      else Inr (rootOffset (header f)))"

definition fetchIfNeeded :: "MMapFile \<Rightarrow> size_t \<Rightarrow> size_t \<Rightarrow> MMapFile" where
  "fetchIfNeeded f offset accessSize =
     (if mustFetch f then f\<lparr>fetched := fetched f @ [(offset, accessSize)]\<rparr> else f)"

text \<open>
  \<open>toPtr\<close> returns the address \<open>_basePtr + offset\<close>; the source has no check of
  \<open>offset\<close> in either overload.
\<close>

definition toPtr :: "MMapFile \<Rightarrow> size_t \<Rightarrow> size_t \<Rightarrow> size_t \<times> MMapFile" where
  "toPtr f offset accessSize = (basePtr f + offset, fetchIfNeeded f offset accessSize)"

text \<open>
  \<open>allocMem\<close>: the result and the file after the call. A thrown exception leaves the
  file as it was when it was thrown.
\<close>

definition allocMem :: "MMapFile \<Rightarrow> size_t \<Rightarrow> bool \<Rightarrow> (error + size_t) \<times> MMapFile" where
  "allocMem f sz isRoot =
     (case validateWriteAccess f of
        Some e \<Rightarrow> (Inl e, f)
      | None \<Rightarrow>
          if nextOffset (header f) + sz > fileSize f then (Inl (CapacityExceeded (fileSize f)), f)
          else
            let offset = nextOffset (header f);
                h1 = (header f)\<lparr>nextOffset := nextOffset (header f) + alignRound sz\<rparr>;
                h2 = (if isRoot then h1\<lparr>rootOffset := offset\<rparr> else h1)
            in (Inr offset, f\<lparr>header := h2\<rparr>))"

text \<open>
  A session on one file: the calls a client makes, in order. A failing call leaves the
  file unchanged and the session goes on with the next call (a session that stops at
  the failure is a prefix of one that goes on).
\<close>

datatype mmap_op = AllocMem size_t bool | ToPtr size_t size_t | GetRootOffset

fun step :: "bool \<Rightarrow> MMapFile \<Rightarrow> mmap_op \<Rightarrow> (error + size_t) \<times> MMapFile" where
  "step ndebug f (AllocMem sz isRoot) = allocMem f sz isRoot"
| "step ndebug f (ToPtr offset accessSize) =
     (case toPtr f offset accessSize of (p, f') \<Rightarrow> (Inr p, f'))"
| "step ndebug f GetRootOffset = (getRootOffset ndebug f, f)"

fun session :: "bool \<Rightarrow> MMapFile \<Rightarrow> mmap_op list
    \<Rightarrow> (mmap_op \<times> (error + size_t)) list \<times> MMapFile" where
  "session ndebug f [] = ([], f)"
| "session ndebug f (op # ops) =
     (case step ndebug f op of
        (r, f1) \<Rightarrow> (case session ndebug f1 ops of (tr, f2) \<Rightarrow> ((op, r) # tr, f2)))"

text \<open>The successful allocations of a trace: returned offset and requested size.\<close>

fun allocations :: "(mmap_op \<times> (error + size_t)) list \<Rightarrow> (size_t \<times> size_t) list" where
  "allocations [] = []"
| "allocations ((AllocMem sz isRoot, Inr offset) # tr) = (offset, sz) # allocations tr"
| "allocations (_ # tr) = allocations tr"

text \<open>\<open>offset % sizeof(size_t) == 0\<close>.\<close>

definition wordAligned :: "size_t \<Rightarrow> bool" where
  "wordAligned offset = (offset mod 8 = 0)"

text \<open>The next multiple of the machine word size (8 bytes) at or above \<open>n\<close>.\<close>

definition nextWordMultiple :: "nat \<Rightarrow> nat" where
  "nextWordMultiple n = (n + 7) div 8 * 8"

text \<open>
  No \<open>size_t\<close> computation of an allocation in a file of size \<open>fs\<close> wraps around.
\<close>

definition noWrap :: "size_t \<Rightarrow> mmap_op \<Rightarrow> bool" where
  "noWrap fs op =
     (case op of AllocMem sz isRoot \<Rightarrow> unat fs + unat sz + 7 < 2 ^ 64 | _ \<Rightarrow> True)"

text \<open>
  How a later allocation \<open>b\<close> lies to an earlier one \<open>a\<close> (offset and requested size):
  not below it, and above it when \<open>a\<close> has a non-zero size.
\<close>

definition laterAllocation :: "size_t \<times> size_t \<Rightarrow> size_t \<times> size_t \<Rightarrow> bool" where
  "laterAllocation a b = (fst a \<le> fst b \<and> (snd a \<noteq> 0 \<longrightarrow> fst a < fst b))"

text \<open>The invariant of the allocator, and what holds of each successful allocation.\<close>

definition allocInv :: "MMapFile \<Rightarrow> bool" where
  "allocInv f = (wordAligned (nextOffset (header f))
     \<and> unat (nextOffset (header f)) \<le> unat (fileSize f) + 7)"

definition allocOK :: "MMapFile \<Rightarrow> MMapFile \<Rightarrow> size_t \<times> size_t \<Rightarrow> bool" where
  "allocOK f f' a =
     (unat (nextOffset (header f)) \<le> unat (fst a) \<and> wordAligned (fst a)
      \<and> unat (fst a) + unat (snd a) \<le> unat (fileSize f)
      \<and> unat (fst a) + unat (alignRound (snd a)) \<le> unat (nextOffset (header f')))"

text \<open>
  An entry of a session's trace registers a root when it is a successful
  \<open>allocMem\<close> call with \<open>isRoot = true\<close>.
\<close>

definition registersRoot :: "mmap_op \<times> (error + size_t) \<Rightarrow> bool" where
  "registersRoot e = (case e of (AllocMem sz True, Inr off) \<Rightarrow> True | _ \<Rightarrow> False)"

section \<open>The lift-over engine (liftover/impl/halLiftover.cpp)\<close>

subsection \<open>Records of the boundary\<close>

text \<open>
  \<open>hal_index_t\<close> is a signed 64-bit coordinate. A coordinate is held as the integer
  that it denotes, an integer for which \<open>inRange\<close> holds, and every sum and difference
  that the code computes in \<open>hal_index_t\<close> is passed through \<open>i64\<close>, which wraps it
  around into the 64 bits as the compiled code does (the language leaves a signed
  overflow undefined). \<open>hal_size_t\<close> is the unsigned 64-bit type of the counters: a
  conversion from \<open>hal_index_t\<close> is \<open>toSize\<close>, additions wrap.
\<close>

type_synonym hal_index_t = int
type_synonym hal_size_t = "64 word"

definition inRange :: "int \<Rightarrow> bool" where
  "inRange x = (- (2 ^ 63) \<le> x \<and> x < 2 ^ 63)"

definition i64 :: "int \<Rightarrow> hal_index_t" where
  "i64 x = (x + 2 ^ 63) mod 2 ^ 64 - 2 ^ 63"

text \<open>The conversion of a \<open>hal_index_t\<close> to \<open>hal_size_t\<close>: the value modulo \<open>2 ^ 64\<close>.\<close>

definition toSize :: "hal_index_t \<Rightarrow> hal_size_t" where
  "toSize i = word_of_int i"

text \<open>
  Modelled from the spec: the records \<open>BedBlock\<close>, \<open>PSLInfo\<close> and \<open>BedLine\<close> are
  declared in halBedLine.h, which is not part of the sources. The fields are the ones
  halLiftover.cpp reads and writes, under the names it uses (a suffix where the name is
  taken: \<open>_start\<close>, \<open>_length\<close> of a block are \<open>start_b\<close>, \<open>length_b\<close>; \<open>_start\<close>, \<open>_end\<close>,
  \<open>_name\<close> of a line are \<open>start_l\<close>, \<open>end_l\<close>, \<open>name_l\<close>).
\<close>

record BedBlock =
  start_b :: hal_index_t
  length_b :: hal_index_t

record PSLInfo =
  matches :: hal_size_t
  misMatches :: hal_size_t
  repMatches :: hal_size_t
  nCount :: hal_size_t
  qNumInsert :: hal_size_t
  qBaseInsert :: hal_size_t
  tNumInsert :: hal_size_t
  tBaseInsert :: hal_size_t
  qStrand :: char
  qEnd :: hal_size_t
  qBlockStarts :: "hal_index_t list"

record BedLine =
  chrName :: string
  start_l :: hal_index_t
  end_l :: hal_index_t
  name_l :: string
  strand :: char
  thickStart :: hal_index_t
  thickEnd :: hal_index_t
  blocks :: "BedBlock list"
  bedType :: int
  srcStart :: hal_index_t
  psl :: "PSLInfo list"

text \<open>
  Modelled from the spec: \<open>NULL_INDEX\<close> (halDefs.h, not part of the sources) is the
  index that no position has, \<open>-1\<close>.
\<close>

definition NULL_INDEX :: hal_index_t where
  "NULL_INDEX = - 1"

text \<open>\<open>numeric_limits<hal_index_t>::max()\<close>.\<close>

definition hal_index_max :: hal_index_t where
  "hal_index_max = 2 ^ 63 - 1"

text \<open>
  Modelled from the spec: \<open>BedLine::expandToBed12\<close> (not part of the sources) promotes a
  record to type 12 in place, synthesizing a single block that covers the record.
\<close>

definition expandToBed12 :: "BedLine \<Rightarrow> BedLine" where
  "expandToBed12 b =
     b\<lparr>blocks := [\<lparr>start_b = 0, length_b = i64 (end_l b - start_l b)\<rparr>], bedType := 12\<rparr>"

text \<open>
  Modelled from the spec: \<open>BedLineSrcLess\<close> (not part of the sources) orders lines by
  \<open>_srcStart\<close>; \<open>std::list::sort\<close> is stable, as \<open>sort_key\<close> is.
\<close>

definition sortBySrcStart :: "BedLine list \<Rightarrow> BedLine list" where
  "sortBySrcStart ls = sort_key srcStart ls"

text \<open>What the engine prints on the diagnostic stream, and what it writes.\<close>

datatype warning =
    UnableToFindSequence string string
  | SkippingInterval hal_index_t string hal_size_t
  | SkippingZeroBlocks

datatype outRecord = WriteBed BedLine | WritePSL BedLine bool

text \<open>
  Modelled from the spec: of the source genome the engine uses its name and
  \<open>getSequence(chrName)\<close>, which is null for an unknown name, and of a sequence its
  length (halGenome.h and halSequence.h are not part of the sources).
\<close>

record Genome =
  genomeName :: string
  getSequence :: "string \<Rightarrow> hal_size_t option"

text \<open>
  The engine: the fields of \<open>class Liftover\<close> that halLiftover.cpp uses, the current
  input line \<open>_bedLine\<close> of the scanner it derives from, and the two streams.
\<close>

record Liftover =
  outBedStream :: "outRecord list"
  outPSL :: bool
  outPSLWithName :: bool
  srcGenome :: Genome
  tgtGenome :: Genome
  coalescenceLimit :: "Genome option"
  tgtSet :: "string set"
  bedType_cfg :: int
  traverseDupes :: bool
  bedLine :: BedLine
  srcSequence :: "hal_size_t option"
  outBedLines :: "BedLine list"
  mappedBlocks :: "BedLine list"
  missedSet :: "string set"
  cerr :: "warning list"

text \<open>
  What the functions take from outside the file. \<open>NDEBUG\<close>: assertions are compiled
  out. \<open>liftInterval\<close> is the virtual method of the subclasses: from the engine (its
  current line and window) the pieces it appends to the list it is given.
  \<open>sortBlocks\<close> is \<open>std::sort\<close> on the blocks of a line with \<open>BedBlock::operator<\<close>,
  which orders blocks by \<open>_start\<close>; \<open>std::sort\<close> promises a sorted permutation and no
  more (\<open>sortsBlocks\<close>).
\<close>

record Env =
  NDEBUG :: bool
  liftInterval :: "Liftover \<Rightarrow> BedLine list"
  sortBlocks :: "BedBlock list \<Rightarrow> BedBlock list"

definition sortsBlocks :: "(BedBlock list \<Rightarrow> BedBlock list) \<Rightarrow> BedBlock list \<Rightarrow> bool" where
  "sortsBlocks srt bs = (sorted (map start_b (srt bs)) \<and> mset (srt bs) = mset bs)"

subsection \<open>compatible\<close>

definition compatible :: "bool \<Rightarrow> Liftover \<Rightarrow> BedLine \<Rightarrow> BedLine \<Rightarrow> error + bool" where
  "compatible nd L tgtBed newBlock =
     (if strand tgtBed \<noteq> strand newBlock then Inr False
      else if \<not> nd \<and> \<not> (srcStart newBlock \<ge> srcStart tgtBed) then Inl AssertionFailed
      else if srcStart tgtBed = srcStart newBlock then Inr False
      else if blocks tgtBed = [] then Inl OutOfRange
      else
        let tgtBlock = last (blocks tgtBed);
            delta = (if strand tgtBed \<noteq> strand (bedLine L)
                     then i64 (start_b tgtBlock - end_l newBlock)
                     else i64 (start_l newBlock
                                 - i64 (start_b tgtBlock + length_b tgtBlock)))
        in if delta < 0 then Inr False
           else if chrName tgtBed \<noteq> chrName newBlock then Inr False
           else Inr True)"

subsection \<open>flipBlocks\<close>

text \<open>
  The assertions at the end of the loop body of \<open>flipBlocks\<close> (structured output
  only): the block starts and the query block starts are strictly monotonic in the
  direction of their strand. The second argument is \<open>_qStrand\<close> and \<open>_qBlockStarts\<close> of
  \<open>_psl[0]\<close>, when there is one. \<open>None\<close>: an assertion reads past the end of a vector.
\<close>

fun flipAsserts :: "char \<Rightarrow> (char \<times> hal_index_t list) option \<Rightarrow> BedBlock list \<Rightarrow> bool option"
  where
  "flipAsserts s qi (bp # b # bs) =
     (if \<not> (if s = CHR ''-'' then start_b b < start_b bp else start_b b > start_b bp)
      then Some False
      else (case qi of
              None \<Rightarrow> None
            | Some (qs, qp # q # qstarts) \<Rightarrow>
                if (if qs = CHR ''-'' then q < qp else q > qp)
                then flipAsserts s (Some (qs, q # qstarts)) (b # bs) else Some False
            | Some (qs, _) \<Rightarrow> None))"
| "flipAsserts s qi bs = Some True"

definition flipLine :: "bool \<Rightarrow> bool \<Rightarrow> BedLine \<Rightarrow> error + BedLine" where
  "flipLine nd outPSL_on bed =
     (if length (blocks bed) > 1 then
        let delta = i64 (start_b (blocks bed ! 1)
                      - i64 (start_b (blocks bed ! 0) + length_b (blocks bed ! 0)));
            mustFlip = (if \<not> outPSL_on then delta < 0
                        else (strand bed = CHR ''-'' \<and> delta \<ge> 0)
                           \<or> (strand bed \<noteq> CHR ''-'' \<and> delta < 0))
        in case (if mustFlip then
                   (if outPSL_on then
                      (case psl bed of
                         [] \<Rightarrow> Inl OutOfRange
                       | p # ps \<Rightarrow>
                           Inr (bed\<lparr>blocks := rev (blocks bed),
                                    psl := p\<lparr>qBlockStarts := rev (qBlockStarts p)\<rparr> # ps\<rparr>))
                    else Inr (bed\<lparr>blocks := rev (blocks bed)\<rparr>))
                 else Inr bed) of
             Inl e \<Rightarrow> Inl e
           | Inr bed' \<Rightarrow>
               if nd \<or> \<not> outPSL_on then Inr bed'
               else (case flipAsserts (strand bed')
                            (case psl bed' of [] \<Rightarrow> None
                             | p # ps \<Rightarrow> Some (qStrand p, qBlockStarts p))
                            (blocks bed') of
                       None \<Rightarrow> Inl OutOfRange
                     | Some False \<Rightarrow> Inl AssertionFailed
                     | Some True \<Rightarrow> Inr bed')
      else Inr bed)"

text \<open>A loop over a list of lines that stops at the first failure.\<close>

fun forEachLine :: "(BedLine \<Rightarrow> error + BedLine) \<Rightarrow> BedLine list \<Rightarrow> error + BedLine list" where
  "forEachLine g [] = Inr []"
| "forEachLine g (b # bs) =
     (case g b of
        Inl e \<Rightarrow> Inl e
      | Inr b' \<Rightarrow> (case forEachLine g bs of Inl e \<Rightarrow> Inl e | Inr bs' \<Rightarrow> Inr (b' # bs')))"

definition flipBlocks :: "bool \<Rightarrow> bool \<Rightarrow> BedLine list \<Rightarrow> error + BedLine list" where
  "flipBlocks nd outPSL_on bedList = forEachLine (flipLine nd outPSL_on) bedList"

subsection \<open>computePSLInserts\<close>

text \<open>
  The body of the loop over the adjacent pairs: \<open>bPrev\<close>, \<open>bIt\<close> are the blocks under
  \<open>blockPrev\<close>, \<open>blockIt\<close> and \<open>qPrev\<close>, \<open>qIt\<close> the query starts under \<open>qStartPrev\<close>,
  \<open>qStartIt\<close> at the start of the iteration; the swaps are written out. \<open>gap\<close> is a
  \<open>hal_size_t\<close>.
\<close>

definition insertBody :: "bool \<Rightarrow> char \<Rightarrow> char \<Rightarrow> BedBlock \<Rightarrow> BedBlock \<Rightarrow> hal_index_t
    \<Rightarrow> hal_index_t \<Rightarrow> PSLInfo \<Rightarrow> error + PSLInfo" where
  "insertBody nd s qs bPrev bIt qPrev qIt p =
     (let tIt = (if s = CHR ''-'' then bPrev else bIt);
          tPrev = (if s = CHR ''-'' then bIt else bPrev)
      in if \<not> nd \<and> \<not> (start_b tIt \<ge> i64 (start_b tPrev + length_b tPrev))
         then Inl AssertionFailed
         else
           let gap = toSize (i64 (start_b tIt - i64 (start_b tPrev + length_b tPrev)));
               p1 = (if gap > 0
                     then p\<lparr>tNumInsert := tNumInsert p + 1, tBaseInsert := tBaseInsert p + gap\<rparr>
                     else p);
               qStartIt = (if qs = CHR ''-'' then qPrev else qIt);
               qStartPrev = (if qs = CHR ''-'' then qIt else qPrev);
               blockPrev = (if qs = CHR ''-'' then bIt else bPrev);
               gap2 = (if qStartIt \<ge> i64 (qStartPrev + length_b blockPrev)
                       then toSize (i64 (qStartIt - i64 (qStartPrev + length_b blockPrev)))
                       else (0 :: hal_size_t));
               p2 = (if gap2 > 0
                     then p1\<lparr>qNumInsert := qNumInsert p1 + 1,
                             qBaseInsert := qBaseInsert p1 + gap2\<rparr>
                     else p1)
           in Inr p2)"

fun insertLoop :: "bool \<Rightarrow> char \<Rightarrow> char \<Rightarrow> BedBlock list \<Rightarrow> hal_index_t list \<Rightarrow> PSLInfo
    \<Rightarrow> error + PSLInfo" where
  "insertLoop nd s qs (bPrev # bIt # bs) (qPrev # qIt # qstarts) p =
     (case insertBody nd s qs bPrev bIt qPrev qIt p of
        Inl e \<Rightarrow> Inl e
      | Inr p2 \<Rightarrow> insertLoop nd s qs (bIt # bs) (qIt # qstarts) p2)"
| "insertLoop nd s qs (bPrev # bIt # bs) qstarts p = Inl OutOfRange"
| "insertLoop nd s qs bs qstarts p = Inr p"

definition computePSLInsertsLine :: "bool \<Rightarrow> BedLine \<Rightarrow> error + BedLine" where
  "computePSLInsertsLine nd bed =
     (case psl bed of
        [] \<Rightarrow> Inl OutOfRange
      | p # ps \<Rightarrow>
          let p0 = p\<lparr>qNumInsert := 0, qBaseInsert := 0, tNumInsert := 0, tBaseInsert := 0\<rparr>
          in if \<not> nd \<and> length (blocks bed) \<noteq> length (qBlockStarts p0)
             then Inl AssertionFailed
             else if blocks bed \<noteq> [] \<and> qBlockStarts p0 = [] then Inl OutOfRange
             else (case insertLoop nd (strand bed) (qStrand p0) (blocks bed)
                          (qBlockStarts p0) p0 of
                     Inl e \<Rightarrow> Inl e
                   | Inr p1 \<Rightarrow> Inr (bed\<lparr>psl := p1 # ps\<rparr>)))"

definition computePSLInserts :: "bool \<Rightarrow> BedLine list \<Rightarrow> error + BedLine list" where
  "computePSLInserts nd bedList = forEachLine (computePSLInsertsLine nd) bedList"

subsection \<open>assignBlocksToIntervals\<close>

definition srcBlockEnd :: "BedLine \<Rightarrow> hal_index_t" where
  "srcBlockEnd b = i64 (srcStart b + i64 (end_l b - start_l b))"

definition dupe :: "hal_index_t \<Rightarrow> BedLine \<Rightarrow> BedLine option \<Rightarrow> bool" where
  "dupe prevSrcBlockEnd b blockNext =
     (srcStart b < prevSrcBlockEnd
      \<or> (case blockNext of None \<Rightarrow> False | Some n \<Rightarrow> srcStart n < srcBlockEnd b))"

text \<open>
  The condition of the \<open>if\<close> that pushes a new output line. \<open>||\<close> evaluates
  \<open>compatible\<close> only when the two tests before it are false.
\<close>

definition startsNew :: "bool \<Rightarrow> Liftover \<Rightarrow> BedLine list \<Rightarrow> hal_index_t \<Rightarrow> BedLine
    \<Rightarrow> BedLine option \<Rightarrow> error + bool" where
  "startsNew nd L out prevSrcBlockEnd b blockNext =
     (if out = [] \<or> (outPSL L \<and> dupe prevSrcBlockEnd b blockNext) then Inr True
      else (case compatible nd L (last out) b of
              Inl e \<Rightarrow> Inl e
            | Inr c \<Rightarrow> Inr (\<not> c)))"

text \<open>The structured-output part of the loop body, on the line \<open>tgtBed\<close>.\<close>

definition pslAppend :: "bool \<Rightarrow> BedLine \<Rightarrow> BedLine \<Rightarrow> error + BedLine" where
  "pslAppend nd tgtBed b =
     (if \<not> nd \<and> length (psl tgtBed) \<noteq> 1 then Inl AssertionFailed
      else (case psl tgtBed of
              [] \<Rightarrow> Inl OutOfRange
            | p # ps \<Rightarrow>
                let p1 = p\<lparr>qBlockStarts := qBlockStarts p @ [srcStart b]\<rparr>
                in case (if length (blocks tgtBed) > 1 then
                           (case psl b of
                              [] \<Rightarrow> Inl OutOfRange
                            | pb # pbs \<Rightarrow>
                                Inr (p1\<lparr>matches := matches p1 + matches pb,
                                        misMatches := misMatches p1 + misMatches pb,
                                        repMatches := repMatches p1 + repMatches pb,
                                        nCount := nCount p1 + nCount pb\<rparr>))
                         else Inr p1) of
                     Inl e \<Rightarrow> Inl e
                   | Inr p2 \<Rightarrow>
                       if \<not> nd \<and> length (blocks tgtBed) \<noteq> length (qBlockStarts p2)
                       then Inl AssertionFailed
                       else Inr (tgtBed\<lparr>psl := p2 # ps\<rparr>)))"

text \<open>
  One iteration of the walk: the output lines and \<open>prevSrcBlockEnd\<close> before it, the
  block \<open>*blockIt\<close> and the block after it, if any.
\<close>

definition assignBody :: "bool \<Rightarrow> Liftover \<Rightarrow> BedLine list \<Rightarrow> hal_index_t \<Rightarrow> BedLine
    \<Rightarrow> BedLine option \<Rightarrow> error + (BedLine list \<times> hal_index_t)" where
  "assignBody nd L out prevSrcBlockEnd b blockNext =
     (case startsNew nd L out prevSrcBlockEnd b blockNext of
        Inl e \<Rightarrow> Inl e
      | Inr new \<Rightarrow>
          let out1 = (if new then out @ [b] else out);
              tgt0 = last out1;
              tgt1 = tgt0\<lparr>start_l := min (start_l tgt0) (start_l b),
                         end_l := max (end_l tgt0) (end_l b),
                         blocks := blocks tgt0
                           @ [\<lparr>start_b = start_l b, length_b = i64 (end_l b - start_l b)\<rparr>]\<rparr>
          in case (if outPSL L then pslAppend nd tgt1 b else Inr tgt1) of
               Inl e \<Rightarrow> Inl e
             | Inr tgt2 \<Rightarrow> Inr (butlast out1 @ [tgt2], srcBlockEnd b))"

fun assignLoop :: "bool \<Rightarrow> Liftover \<Rightarrow> BedLine list \<Rightarrow> hal_index_t \<Rightarrow> BedLine list
    \<Rightarrow> error + BedLine list" where
  "assignLoop nd L out prevSrcBlockEnd [] = Inr out"
| "assignLoop nd L out prevSrcBlockEnd (b # rest) =
     (case assignBody nd L out prevSrcBlockEnd b
             (case rest of [] \<Rightarrow> None | n # ns \<Rightarrow> Some n) of
        Inl e \<Rightarrow> Inl e
      | Inr (out', prev') \<Rightarrow> assignLoop nd L out' prev' rest)"

definition relativize :: "bool \<Rightarrow> BedLine \<Rightarrow> error + BedLine" where
  "relativize nd bed =
     (if \<not> nd \<and> \<not> list_all (\<lambda>b. start_b b \<ge> start_l bed) (blocks bed)
      then Inl AssertionFailed
      else Inr (bed\<lparr>blocks := map (\<lambda>b. b\<lparr>start_b := i64 (start_b b - start_l bed)\<rparr>)
                                (blocks bed)\<rparr>))"

definition assignBlocksToIntervals :: "bool \<Rightarrow> Liftover \<Rightarrow> error + Liftover" where
  "assignBlocksToIntervals nd L =
     (if \<not> nd \<and> length (outBedLines L) \<noteq> 0 then Inl AssertionFailed
      else
        let L1 = L\<lparr>mappedBlocks := sortBySrcStart (mappedBlocks L)\<rparr>
        in case assignLoop nd L1 (outBedLines L1) NULL_INDEX (mappedBlocks L1) of
             Inl e \<Rightarrow> Inl e
           | Inr out1 \<Rightarrow>
               (case forEachLine (relativize nd) out1 of
                  Inl e \<Rightarrow> Inl e
                | Inr out2 \<Rightarrow>
                    (case (if out2 \<noteq> [] then flipBlocks nd (outPSL L1) out2 else Inr out2) of
                       Inl e \<Rightarrow> Inl e
                     | Inr out3 \<Rightarrow>
                         (case (if outPSL L1 then computePSLInserts nd out3 else Inr out3) of
                            Inl e \<Rightarrow> Inl e
                          | Inr out4 \<Rightarrow> Inr (L1\<lparr>outBedLines := out4\<rparr>)))))"

subsection \<open>liftBlockIntervals\<close>

fun liftBlocksLoop :: "Env \<Rightarrow> BedLine \<Rightarrow> Liftover \<Rightarrow> BedBlock list \<Rightarrow> Liftover" where
  "liftBlocksLoop env originalBedLine L [] = L"
| "liftBlocksLoop env originalBedLine L (blk # rest) =
     (let s = i64 (start_b blk + start_l originalBedLine);
          L1 = L\<lparr>bedLine := (bedLine L)\<lparr>start_l := s, end_l := i64 (s + length_b blk)\<rparr>\<rparr>;
          L2 = (if end_l (bedLine L1) > start_l (bedLine L1)
                then L1\<lparr>mappedBlocks := mappedBlocks L1 @ liftInterval env L1\<rparr>
                else L1)
      in liftBlocksLoop env originalBedLine L2 rest)"

definition liftBlockIntervals :: "Env \<Rightarrow> Liftover \<Rightarrow> Liftover" where
  "liftBlockIntervals env L =
     (let originalBedLine = bedLine L;
          L1 = L\<lparr>bedLine := (bedLine L)\<lparr>blocks := sortBlocks env (blocks (bedLine L))\<rparr>\<rparr>;
          L2 = liftBlocksLoop env originalBedLine L1 (blocks (bedLine L1))
      in L2\<lparr>bedLine := (bedLine L2)\<lparr>start_l := start_l originalBedLine,
                                     end_l := end_l originalBedLine\<rparr>\<rparr>)"

subsection \<open>writeBlocksAsIntervals, cleanResults, writeLineResults\<close>

definition writeBlocksAsIntervals :: "Liftover \<Rightarrow> Liftover" where
  "writeBlocksAsIntervals L = L\<lparr>outBedLines := mappedBlocks L\<rparr>"

text \<open>
  The inner loop of \<open>cleanResults\<close> over the query starts of a line: the running
  \<open>_srcStart\<close> and \<open>_qEnd\<close>. It reads \<open>_blocks[j]\<close> for every query start.
\<close>

fun pslSpan :: "hal_index_t list \<Rightarrow> BedBlock list \<Rightarrow> hal_index_t \<Rightarrow> hal_size_t
    \<Rightarrow> error + (hal_index_t \<times> hal_size_t)" where
  "pslSpan [] bs s e = Inr (s, e)"
| "pslSpan (q # qstarts) [] s e = Inl OutOfRange"
| "pslSpan (q # qstarts) (b # bs) s e =
     pslSpan qstarts bs (min s q) (max e (toSize q + toSize (length_b b)))"

text \<open>One output line in \<open>cleanResults\<close>; \<open>None\<close> when the line is erased.\<close>

definition cleanLine :: "bool \<Rightarrow> Liftover \<Rightarrow> BedLine \<Rightarrow> error + BedLine option" where
  "cleanLine nd L i =
     (case (if thickStart (bedLine L) \<noteq> 0 \<or> thickEnd (bedLine L) \<noteq> 0
            then Inr (i\<lparr>thickStart := start_l i, thickEnd := end_l i\<rparr>)
            else if \<not> nd \<and> \<not> (thickStart i = 0 \<and> thickEnd i = 0) then Inl AssertionFailed
            else Inr i) of
        Inl e \<Rightarrow> Inl e
      | Inr i1 \<Rightarrow>
          if bedType (bedLine L) > 9 then
            (if length (blocks i1) > 0 then
               (if outPSL L then
                  (if \<not> nd \<and> length (psl i1) \<noteq> 1 then Inl AssertionFailed
                   else (case psl i1 of
                           [] \<Rightarrow> Inl OutOfRange
                         | p # ps \<Rightarrow>
                             (case pslSpan (qBlockStarts p) (blocks i1) hal_index_max 0 of
                                Inl e \<Rightarrow> Inl e
                              | Inr (s, e) \<Rightarrow>
                                  Inr (Some (i1\<lparr>srcStart := s, psl := p\<lparr>qEnd := e\<rparr> # ps\<rparr>)))))
                else Inr (Some i1))
             else Inr None)
          else Inr (Some i1))"

fun cleanLoop :: "bool \<Rightarrow> Liftover \<Rightarrow> BedLine list \<Rightarrow> error + BedLine list" where
  "cleanLoop nd L [] = Inr []"
| "cleanLoop nd L (i # rest) =
     (case cleanLine nd L i of
        Inl e \<Rightarrow> Inl e
      | Inr r \<Rightarrow>
          (case cleanLoop nd L rest of
             Inl e \<Rightarrow> Inl e
           | Inr rest' \<Rightarrow> Inr (case r of None \<Rightarrow> rest' | Some i' \<Rightarrow> i' # rest')))"

definition cleanResults :: "bool \<Rightarrow> Liftover \<Rightarrow> error + Liftover" where
  "cleanResults nd L =
     (if bedType (bedLine L) > 6 then
        (case cleanLoop nd L (outBedLines L) of
           Inl e \<Rightarrow> Inl e
         | Inr out \<Rightarrow> Inr (L\<lparr>outBedLines := out\<rparr>))
      else Inr L)"

definition writeLineResults :: "Liftover \<Rightarrow> Liftover" where
  "writeLineResults L =
     L\<lparr>outBedStream := outBedStream L
          @ map (\<lambda>i. if \<not> outPSL L then WriteBed i else WritePSL i (outPSLWithName L))
              (outBedLines L)\<rparr>"

subsection \<open>visitLine and convert\<close>

text \<open>The branch of \<open>visitLine\<close> for a line whose sequence was found and is long enough.\<close>

definition liftLine :: "Env \<Rightarrow> Liftover \<Rightarrow> error + Liftover" where
  "liftLine env L3 =
     (let L4 = L3\<lparr>mappedBlocks := []\<rparr>;
          L5 = (if bedType (bedLine L4) \<le> 9
                then L4\<lparr>mappedBlocks := mappedBlocks L4 @ liftInterval env L4\<rparr>
                else liftBlockIntervals env L4)
      in case (if length (mappedBlocks L5) > 0 \<and> bedType (bedLine L5) > 9
               then assignBlocksToIntervals (NDEBUG env) L5 else Inr L5) of
           Inl e \<Rightarrow> Inl e
         | Inr L6 \<Rightarrow>
             let L7 = (if bedType (bedLine L6) \<le> 9 then writeBlocksAsIntervals L6 else L6)
             in case cleanResults (NDEBUG env) L7 of
                  Inl e \<Rightarrow> Inl e
                | Inr L8 \<Rightarrow>
                    Inr (writeLineResults (L8\<lparr>outBedLines := sortBySrcStart (outBedLines L8)\<rparr>)))"

definition visitLine :: "Env \<Rightarrow> Liftover \<Rightarrow> error + Liftover" where
  "visitLine env L0 =
     (let L1 = (if (outPSL L0 \<or> outPSLWithName L0) \<and> bedType (bedLine L0) < 12
                then L0\<lparr>bedLine := expandToBed12 (bedLine L0)\<rparr> else L0);
          L2 = L1\<lparr>outBedLines := []\<rparr>;
          L3 = L2\<lparr>srcSequence := getSequence (srcGenome L2) (chrName (bedLine L2))\<rparr>
      in case srcSequence L3 of
           None \<Rightarrow>
             Inr (if chrName (bedLine L3) \<in> missedSet L3 then L3
                  else L3\<lparr>missedSet := insert (chrName (bedLine L3)) (missedSet L3),
                          cerr := cerr L3 @ [UnableToFindSequence (chrName (bedLine L3))
                                               (genomeName (srcGenome L3))]\<rparr>)
         | Some len \<Rightarrow>
             if end_l (bedLine L3) > sint len
             then Inr (L3\<lparr>cerr := cerr L3
                         @ [SkippingInterval (end_l (bedLine L3)) (chrName (bedLine L3)) len]\<rparr>)
             else if bedType (bedLine L3) > 9 \<and> blocks (bedLine L3) = []
             then Inr (L3\<lparr>cerr := cerr L3 @ [SkippingZeroBlocks]\<rparr>)
             else liftLine env L3)"

text \<open>
  Modelled from the spec: \<open>scan\<close> belongs to the scanner the engine derives from
  (halBedScanner, not part of the sources). It reads the input records one at a time,
  makes each the current line and calls \<open>visitLine\<close>; parsing is outside the
  specification, so the input is the list of parsed records. A fatal error ends the
  scan.
\<close>

fun scan :: "Env \<Rightarrow> Liftover \<Rightarrow> BedLine list \<Rightarrow> error + Liftover" where
  "scan env L [] = Inr L"
| "scan env L (line # rest) =
     (case visitLine env (L\<lparr>bedLine := line\<rparr>) of
        Inl e \<Rightarrow> Inl e
      | Inr L' \<Rightarrow> scan env L' rest)"

text \<open>
  \<open>convert\<close>; the pointer arguments are the objects they point to (the assertion wants
  them non-null), and \<open>_tgtSet\<close> holds the names of its genomes.
\<close>

definition convert :: "Env \<Rightarrow> Liftover \<Rightarrow> Genome \<Rightarrow> BedLine list \<Rightarrow> Genome \<Rightarrow> outRecord list
    \<Rightarrow> int \<Rightarrow> bool \<Rightarrow> bool \<Rightarrow> bool \<Rightarrow> Genome option \<Rightarrow> error + Liftover" where
  "convert env L srcG inBedStream tgtG outStream bedTy traverse psl_on pslWithName coalLimit =
     scan env
       (L\<lparr>srcGenome := srcG, tgtGenome := tgtG, coalescenceLimit := coalLimit,
          outBedStream := outStream, bedType_cfg := bedTy, traverseDupes := traverse,
          outPSL := psl_on, outPSLWithName := pslWithName, missedSet := {},
          tgtSet := {genomeName tgtG}\<rparr>)
       inBedStream"

section \<open>The specification's words\<close>

text \<open>
  The definitions of this section follow the specification, not the code; the theorems
  compare them with the code.
\<close>

subsection \<open>compatible\<close>



subsection \<open>flipBlocks\<close>

definition flipDelta :: "BedLine \<Rightarrow> hal_index_t" where
  "flipDelta bed =
     start_b (blocks bed ! 1) - (start_b (blocks bed ! 0) + length_b (blocks bed ! 0))"

definition mustFlip :: "bool \<Rightarrow> BedLine \<Rightarrow> bool" where
  "mustFlip structured bed =
     (if structured
      then (strand bed = CHR ''-'' \<and> flipDelta bed \<ge> 0)
         \<or> (strand bed \<noteq> CHR ''-'' \<and> flipDelta bed < 0)
      else flipDelta bed < 0)"





subsection \<open>computePSLInserts\<close>













subsection \<open>assignBlocksToIntervals\<close>









subsection \<open>Missing chromosomes\<close>

text \<open>
  The chromosome names of the "unable to find sequence" warnings in a piece of the
  diagnostic stream, and the names of the input records that the source genome does
  not know.
\<close>

definition missedNames :: "warning list \<Rightarrow> string list" where
  "missedNames ws =
     concat (map (\<lambda>w. case w of UnableToFindSequence n g \<Rightarrow> [n] | _ \<Rightarrow> []) ws)"

definition unknownNames :: "Genome \<Rightarrow> BedLine list \<Rightarrow> string set" where
  "unknownNames g ls = set (filter (\<lambda>n. getSequence g n = None) (map chrName ls))"

section \<open>Concrete inputs\<close>

text \<open>A writable 4096-byte file whose next free offset is 400 and which has no root yet.\<close>

definition file0 :: MMapFile where
  "file0 = \<lparr>alignmentPath = ''a.hal'', writeAccess = True, basePtr = 65536,
     header = \<lparr>format = ''HAL-MMAP'', mmapVersion = ''1.1'', halVersion = ''2.2'',
       nextOffset = 400, rootOffset = 0, dirty = True\<rparr>,
     fileSize = 4096, mustFetch = False, fetched = []\<rparr>"

text \<open>
  A writable file of 4100 bytes (not a multiple of the word size) whose next free
  offset is the word-aligned 4088.
\<close>

definition file1 :: MMapFile where
  "file1 = \<lparr>alignmentPath = ''b.hal'', writeAccess = True, basePtr = 65536,
     header = \<lparr>format = ''HAL-MMAP'', mmapVersion = ''1.1'', halVersion = ''2.2'',
       nextOffset = 4088, rootOffset = 0, dirty = True\<rparr>,
     fileSize = 4100, mustFetch = False, fetched = []\<rparr>"

text \<open>A mapped piece on \<open>chr1\<close>: target window, strand and source start.\<close>

definition piece :: "hal_index_t \<Rightarrow> hal_index_t \<Rightarrow> char \<Rightarrow> hal_index_t \<Rightarrow> BedLine" where
  "piece s e st src =
     \<lparr>chrName = ''chr1'', start_l = s, end_l = e, name_l = ''x'', strand = st,
      thickStart = 0, thickEnd = 0, blocks = [], bedType = 12, srcStart = src, psl = []\<rparr>"


text \<open>
  An engine in interval output whose current line is a \<open>+\<close> strand BED12 line of
  \<open>chr1\<close>, with two blocks given out of order.
\<close>

definition engine0 :: Liftover where
  "engine0 = \<lparr>outBedStream = [], outPSL = False, outPSLWithName = False,
     srcGenome = \<lparr>genomeName = ''src'', getSequence = [''chr1'' \<mapsto> 1000]\<rparr>,
     tgtGenome = \<lparr>genomeName = ''tgt'', getSequence = [''chr1'' \<mapsto> 1000]\<rparr>,
     coalescenceLimit = None, tgtSet = {}, bedType_cfg = 12, traverseDupes = True,
     bedLine = (piece 100 200 (CHR ''+'') 0)\<lparr>blocks := [\<lparr>start_b = 70, length_b = 30\<rparr>, \<lparr>start_b = 0, length_b = 30\<rparr>]\<rparr>,
     srcSequence = None, outBedLines = [], mappedBlocks = [], missedSet = {}, cerr = []\<rparr>"



text \<open>
  A \<open>liftInterval\<close> that maps the window of the current line 1000 bases to the right
  on the same strand, and a build with assertions that sorts blocks stably.
\<close>

definition shiftLift :: "Liftover \<Rightarrow> BedLine list" where
  "shiftLift L =
     [piece (start_l (bedLine L) + 1000) (end_l (bedLine L) + 1000) (strand (bedLine L))
        (start_l (bedLine L))]"

definition env0 :: Env where
  "env0 = \<lparr>NDEBUG = False, liftInterval = shiftLift, sortBlocks = sort_key start_b\<rparr>"

text \<open>An input record on \<open>chrX\<close>, which the source genome of \<open>engine0\<close> does not know.\<close>

definition lineX :: BedLine where
  "lineX = (bedLine engine0)\<lparr>chrName := ''chrX''\<rparr>"

text \<open>A session of three records: \<open>chrX\<close>, then \<open>chr1\<close>, then \<open>chrX\<close> again.\<close>

definition session0 :: "error + Liftover" where
  "session0 = convert env0 engine0 (srcGenome engine0) [lineX, bedLine engine0, lineX]
     (tgtGenome engine0) [] 12 True False False None"








section \<open>Allocation\<close>

lemma unat_alignRound:
  "unat (alignRound n) = ((unat n + 7) mod 2 ^ 64 div 8 * 8)"
proof -
  have a: "unat (n + 7) = (unat n + 7) mod 2 ^ 64"
    by (simp add: unat_word_ariths)
  have b: "unat ((n + 7) div 8) = unat (n + 7) div 8"
    by (simp add: unat_div)
  have c: "unat (n + 7) div 8 * 8 < 2 ^ 64"
  proof -
    have "unat (n + 7) div 8 * 8 \<le> unat (n + 7)" by simp
    moreover have "unat (n + 7) < 2 ^ 64" using unsigned_less [of "n + 7"] by simp
    ultimately show ?thesis by linarith
  qed
  have "unat ((n + 7) div 8 * 8) = (unat ((n + 7) div 8) * 8) mod 2 ^ 64"
    by (simp add: unat_word_ariths)
  also have "\<dots> = unat (n + 7) div 8 * 8"
    using b c by simp
  finally show ?thesis using a by (simp add: alignRound_def)
qed

lemma round_mod_gen: "(x::nat) mod (8 * k) div 8 * 8 = (x div 8 * 8) mod (8 * k)"
proof -
  have "x mod (8 * k) div 8 = x div 8 mod k"
    by (simp add: mod_mult2_eq)
  moreover have "(x div 8 * 8) mod (8 * k) = 8 * (x div 8 mod k)"
    using mult_mod_right [of 8 "x div 8" k] by (simp only: mult.commute)
  ultimately show ?thesis by simp
qed

lemma round_mod: "(x::nat) mod 2 ^ 64 div 8 * 8 = (x div 8 * 8) mod 2 ^ 64"
  using round_mod_gen [of x "2 ^ 61"] by simp

lemma alignRound_of_nat: "alignRound n = of_nat (nextWordMultiple (unat n))"
proof -
  have "unat (alignRound n) = nextWordMultiple (unat n) mod 2 ^ 64"
    unfolding unat_alignRound nextWordMultiple_def by (rule round_mod)
  then have "unat (alignRound n) = unat (of_nat (nextWordMultiple (unat n)) :: 64 word)"
    by (simp add: unat_of_nat)
  then show ?thesis by (rule word_unat_eq_iff[THEN iffD2])
qed

lemma nextWordMultiple_bounds:
  "8 dvd nextWordMultiple n \<and> n \<le> nextWordMultiple n \<and> nextWordMultiple n < n + 8"
  unfolding nextWordMultiple_def by presburger

lemma unat_alignRound_small:
  "unat n + 7 < 2 ^ 64 \<Longrightarrow> unat (alignRound n) = nextWordMultiple (unat n)"
  by (simp add: unat_alignRound nextWordMultiple_def)

lemma aligned_unat: "wordAligned w = (unat w mod 8 = 0)"
proof -
  have "unat (w mod 8) = unat w mod 8" by (simp add: unat_mod)
  then show ?thesis unfolding wordAligned_def by (metis unat_eq_0)
qed

lemma aligned_alignRound: "wordAligned (alignRound n)"
  by (simp add: aligned_unat unat_alignRound)

lemma aligned_add:
  "wordAligned a \<Longrightarrow> wordAligned b \<Longrightarrow> wordAligned (a + b)"
proof -
  assume "wordAligned a" "wordAligned b"
  then have a: "8 dvd unat a" and b: "8 dvd unat b"
    by (simp_all add: aligned_unat dvd_eq_mod_eq_0)
  have "unat (a + b) = (unat a + unat b) mod (8 * 2 ^ 61)"
    by (simp add: unat_word_ariths)
  moreover have "8 dvd (unat a + unat b) mod (8 * 2 ^ 61)"
    using a b by (meson dvd_add dvd_mod dvd_triv_left)
  ultimately show ?thesis
    by (simp add: aligned_unat dvd_eq_mod_eq_0)
qed

lemma allocMem_Inr:
  "allocMem f sz isRoot = (Inr off, f') \<Longrightarrow>
     writeAccess f \<and> \<not> nextOffset (header f) + sz > fileSize f \<and> off = nextOffset (header f) \<and>
     f' = f\<lparr>header := (header f)\<lparr>nextOffset := nextOffset (header f) + alignRound sz,
            rootOffset := (if isRoot then off else rootOffset (header f))\<rparr>\<rparr>"
  by (auto simp: allocMem_def validateWriteAccess_def isReadOnly_def Let_def split: if_splits)

lemma allocMem_Inl: "allocMem f sz isRoot = (Inl e, f') \<Longrightarrow> f' = f"
  by (auto simp: allocMem_def validateWriteAccess_def isReadOnly_def Let_def split: if_splits)

text \<open>
  Where no \<open>size_t\<close> computation wraps around, \<open>allocMem\<close> in write mode raises the
  capacity error exactly when \<open>nextOffset + size\<close> is above \<open>fileSize\<close>, and otherwise
  returns the old \<open>nextOffset\<close>, advances it by the next multiple of the word size at
  or above \<open>size\<close> and records the root when asked to.
\<close>

lemma allocMem_in_range:
  assumes w: "writeAccess f"
    and small: "unat (nextOffset (header f)) + unat sz + 7 < 2 ^ 64"
  shows "(fst (allocMem f sz isRoot) = Inl (CapacityExceeded (fileSize f)))
           = (unat (nextOffset (header f)) + unat sz > unat (fileSize f))
       \<and> (unat (nextOffset (header f)) + unat sz > unat (fileSize f) \<longrightarrow>
            snd (allocMem f sz isRoot) = f)
       \<and> (\<not> unat (nextOffset (header f)) + unat sz > unat (fileSize f) \<longrightarrow>
            fst (allocMem f sz isRoot) = Inr (nextOffset (header f))
          \<and> unat (nextOffset (header (snd (allocMem f sz isRoot))))
               = unat (nextOffset (header f)) + nextWordMultiple (unat sz)
          \<and> rootOffset (header (snd (allocMem f sz isRoot)))
               = (if isRoot then nextOffset (header f) else rootOffset (header f)))"
proof -
  have "\<not> isReadOnly f" using w by (simp add: isReadOnly_def)
  then have v: "validateWriteAccess f = None" by (simp add: validateWriteAccess_def)
  have "unat (nextOffset (header f)) + unat sz < 2 ^ 64" using small by simp
  then have sum: "unat (nextOffset (header f) + sz) = unat (nextOffset (header f)) + unat sz"
    by (simp add: unat_add_lem [THEN iffD1])
  have g: "(nextOffset (header f) + sz > fileSize f)
      = (unat (nextOffset (header f)) + unat sz > unat (fileSize f))"
    using sum by (simp add: word_less_nat_alt)
  have a: "unat (alignRound sz) = nextWordMultiple (unat sz)"
    using small by (intro unat_alignRound_small) simp
  have "unat (nextOffset (header f)) + unat (alignRound sz) < 2 ^ 64"
    using a small nextWordMultiple_bounds [of "unat sz"] by simp
  then have adv: "unat (nextOffset (header f) + alignRound sz)
      = unat (nextOffset (header f)) + nextWordMultiple (unat sz)"
    using a by (simp add: unat_add_lem [THEN iffD1])
  show ?thesis
    unfolding g [symmetric] using adv by (simp add: allocMem_def v Let_def)
qed

text \<open>
  Claim C2. In write mode \<open>allocMem(size, isRoot)\<close> is to raise the capacity error
  exactly when \<open>nextOffset + size > fileSize\<close>, and otherwise to advance \<open>nextOffset\<close> by
  \<open>size\<close> rounded up to the next multiple of the word size. The code does not at a
  request of \<open>2 ^ 64 - 1\<close> bytes on the file \<open>file0\<close> (\<open>nextOffset\<close> 400, \<open>fileSize\<close>
  4096): the sum is far above the file size, but the guard computes it in \<open>size_t\<close>,
  where it wraps around to 399, so that the call raises nothing and returns offset 400;
  the rounding wraps around too, to 0, and \<open>nextOffset\<close> stays where it was.
\<close>

theorem allocMem_guard_overflow:
  "writeAccess file0
   \<and> unat (nextOffset (header file0)) + unat (18446744073709551615 :: size_t)
       > unat (fileSize file0)
   \<and> nextOffset (header file0) + 18446744073709551615 = 399
   \<and> fst (allocMem file0 18446744073709551615 False) = Inr 400
   \<and> snd (allocMem file0 18446744073709551615 False) = file0
   \<and> alignRound 18446744073709551615 = 0"
  by (simp add: allocMem_def validateWriteAccess_def isReadOnly_def alignRound_def file0_def
      Let_def)

lemma allocMem_no_wrap:
  assumes ok: "allocMem f sz isRoot = (Inr off, f')"
    and inv: "unat (nextOffset (header f)) \<le> unat (fileSize f) + 7"
    and small: "unat (fileSize f) + unat sz + 7 < 2 ^ 64"
  shows "unat off + unat sz \<le> unat (fileSize f)
       \<and> unat (alignRound sz) = nextWordMultiple (unat sz)
       \<and> unat (nextOffset (header f')) = unat off + nextWordMultiple (unat sz)"
proof -
  from allocMem_Inr [OF ok]
  have le: "\<not> nextOffset (header f) + sz > fileSize f"
    and off: "off = nextOffset (header f)"
    and nxt: "nextOffset (header f') = nextOffset (header f) + alignRound sz"
    by simp_all
  have "unat (nextOffset (header f)) + unat sz < 2 ^ 64"
    using inv small by simp
  then have sum: "unat (nextOffset (header f) + sz) = unat (nextOffset (header f)) + unat sz"
    by (simp add: unat_add_lem [THEN iffD1])
  have a: "unat off + unat sz \<le> unat (fileSize f)"
    using le sum off by (simp add: word_less_nat_alt)
  have b: "unat (alignRound sz) = nextWordMultiple (unat sz)"
    using small by (intro unat_alignRound_small) simp
  have "unat (nextOffset (header f)) + unat (alignRound sz) < 2 ^ 64"
    using a b off small nextWordMultiple_bounds [of "unat sz"] by simp
  then have "unat (nextOffset (header f) + alignRound sz)
      = unat (nextOffset (header f)) + unat (alignRound sz)"
    by (simp add: unat_add_lem [THEN iffD1])
  then show ?thesis using a b off nxt by simp
qed

lemma step_inv:
  assumes inv: "allocInv f" and nw: "noWrap (fileSize f) op"
    and st: "step nd f op = (r, f1)"
  shows "fileSize f1 = fileSize f \<and> allocInv f1
       \<and> unat (nextOffset (header f)) \<le> unat (nextOffset (header f1))
       \<and> (\<forall>sz isRoot off. op = AllocMem sz isRoot \<and> r = Inr off \<longrightarrow>
             off = nextOffset (header f) \<and> unat off + unat sz \<le> unat (fileSize f)
           \<and> unat (nextOffset (header f1)) = unat off + unat (alignRound sz)
           \<and> (sz \<noteq> 0 \<longrightarrow> unat off < unat (nextOffset (header f1))))"
proof (cases op)
  case (AllocMem sz isRoot)
  show ?thesis
  proof (cases r)
    case (Inl e)
    with st AllocMem have "f1 = f" by (auto dest: allocMem_Inl)
    with inv Inl show ?thesis by simp
  next
    case (Inr off)
    with st AllocMem have ok: "allocMem f sz isRoot = (Inr off, f1)" by simp
    from inv have al: "wordAligned (nextOffset (header f))"
      and bd: "unat (nextOffset (header f)) \<le> unat (fileSize f) + 7"
      by (simp_all add: allocInv_def)
    from nw AllocMem have small: "unat (fileSize f) + unat sz + 7 < 2 ^ 64"
      by (simp add: noWrap_def)
    from allocMem_no_wrap [OF ok bd small]
    have a: "unat off + unat sz \<le> unat (fileSize f)"
      and b: "unat (alignRound sz) = nextWordMultiple (unat sz)"
      and c: "unat (nextOffset (header f1)) = unat off + nextWordMultiple (unat sz)"
      by simp_all
    from allocMem_Inr [OF ok]
    have off: "off = nextOffset (header f)"
      and nxt: "nextOffset (header f1) = nextOffset (header f) + alignRound sz"
      and fs: "fileSize f1 = fileSize f"
      by simp_all
    have al1: "wordAligned (nextOffset (header f1))"
      unfolding nxt using al aligned_alignRound by (rule aligned_add)
    have pos: "sz \<noteq> 0 \<Longrightarrow> 0 < nextWordMultiple (unat sz)"
      using nextWordMultiple_bounds [of "unat sz"] by (simp add: unat_gt_0 [symmetric])
    show ?thesis
      using AllocMem Inr a b c off fs al1 pos nextWordMultiple_bounds [of "unat sz"]
      by (auto simp: allocInv_def)
  qed
next
  case (ToPtr offset accessSize)
  with st have "f1 = fetchIfNeeded f offset accessSize" by (auto simp: toPtr_def)
  then have "header f1 = header f" "fileSize f1 = fileSize f"
    by (simp_all add: fetchIfNeeded_def)
  with inv ToPtr show ?thesis by (simp add: allocInv_def)
next
  case GetRootOffset
  with st have "f1 = f" by simp
  with inv GetRootOffset show ?thesis by simp
qed

lemma allocations_Cons:
  "allocations ((op, r) # tr) =
     (case (op, r) of (AllocMem sz isRoot, Inr off) \<Rightarrow> (off, sz) # allocations tr
      | _ \<Rightarrow> allocations tr)"
  by (cases op; cases r) simp_all

lemma session_inv:
  "allocInv f \<Longrightarrow> list_all (noWrap (fileSize f)) ops \<Longrightarrow> session nd f ops = (tr, f') \<Longrightarrow>
     fileSize f' = fileSize f \<and> allocInv f'
     \<and> unat (nextOffset (header f)) \<le> unat (nextOffset (header f'))
     \<and> list_all (allocOK f f') (allocations tr)
     \<and> sorted_wrt laterAllocation (allocations tr)"
proof (induction ops arbitrary: f tr)
  case Nil
  then show ?case by simp
next
  case (Cons op ops)
  obtain r f1 where st: "step nd f op = (r, f1)" by (cases "step nd f op")
  obtain tr1 where se: "session nd f1 ops = (tr1, f')" and tr: "tr = (op, r) # tr1"
    using Cons.prems(3) st by (auto split: prod.splits)
  from Cons.prems(2) have nw: "noWrap (fileSize f) op"
    and nws: "list_all (noWrap (fileSize f)) ops" by simp_all
  from step_inv [OF Cons.prems(1) nw st]
  have fs1: "fileSize f1 = fileSize f" and inv1: "allocInv f1"
    and mono1: "unat (nextOffset (header f)) \<le> unat (nextOffset (header f1))"
    and alloc: "\<And>sz isRoot off. op = AllocMem sz isRoot \<Longrightarrow> r = Inr off \<Longrightarrow>
             off = nextOffset (header f) \<and> unat off + unat sz \<le> unat (fileSize f)
           \<and> unat (nextOffset (header f1)) = unat off + unat (alignRound sz)
           \<and> (sz \<noteq> 0 \<longrightarrow> unat off < unat (nextOffset (header f1)))"
    by blast+
  from Cons.IH [OF inv1 _ se] nws fs1
  have fs: "fileSize f' = fileSize f" and inv': "allocInv f'"
    and mono: "unat (nextOffset (header f1)) \<le> unat (nextOffset (header f'))"
    and oks: "list_all (allocOK f1 f') (allocations tr1)"
    and srt: "sorted_wrt laterAllocation (allocations tr1)"
    by simp_all
  have oks': "list_all (allocOK f f') (allocations tr1)"
    using oks mono1 fs1 by (auto simp: list_all_iff allocOK_def)
  show ?case
  proof (cases "\<exists>sz isRoot off. op = AllocMem sz isRoot \<and> r = Inr off")
    case False
    then have "allocations tr = allocations tr1"
      unfolding tr allocations_Cons
      by (auto split: mmap_op.splits sum.splits)
    then show ?thesis using fs inv' mono mono1 oks' srt by simp
  next
    case True
    then obtain sz isRoot off where op: "op = AllocMem sz isRoot" and r: "r = Inr off"
      by blast
    have eq: "allocations tr = (off, sz) # allocations tr1"
      unfolding tr by (simp add: op r)
    from alloc [OF op r]
    have off: "off = nextOffset (header f)"
      and fit: "unat off + unat sz \<le> unat (fileSize f)"
      and nxt: "unat (nextOffset (header f1)) = unat off + unat (alignRound sz)"
      and strict: "sz \<noteq> 0 \<Longrightarrow> unat off < unat (nextOffset (header f1))"
      by auto
    have hd_ok: "allocOK f f' (off, sz)"
      using off fit nxt mono Cons.prems(1) by (simp add: allocOK_def allocInv_def)
    have later: "\<forall>b \<in> set (allocations tr1). laterAllocation (off, sz) b"
    proof
      fix b assume "b \<in> set (allocations tr1)"
      with oks have "unat (nextOffset (header f1)) \<le> unat (fst b)"
        by (simp add: list_all_iff allocOK_def)
      then show "laterAllocation (off, sz) b"
        using nxt strict by (auto simp: laterAllocation_def word_le_nat_alt word_less_nat_alt)
    qed
    show ?thesis using eq fs inv' mono mono1 oks' srt hd_ok later by simp
  qed
qed

lemma list_all_mono: "list_all P xs \<Longrightarrow> (\<And>x. P x \<Longrightarrow> Q x) \<Longrightarrow> list_all Q xs"
  by (simp add: list_all_iff)

text \<open>
  Claim C1, as amended. In a session that starts with a word-aligned \<open>nextOffset\<close> at
  or below \<open>fileSize\<close>, and in which no request wraps around
  (\<open>fileSize + n + 7 < 2 ^ 64\<close> for every requested size \<open>n\<close>), the offsets returned by
  the successful \<open>allocMem\<close> calls never decrease and increase strictly after an
  allocation of non-zero size; each returned offset \<open>o\<close> is word-aligned and satisfies
  \<open>o + n \<le> fileSize\<close>; \<open>nextOffset\<close> never exceeds \<open>fileSize + 7\<close>. When \<open>fileSize\<close>
  is itself word-aligned, also \<open>o + alignRound(n) \<le> fileSize\<close> for each allocation and
  \<open>nextOffset \<le> fileSize\<close> throughout.
\<close>

theorem allocMem_session_offsets:
  assumes aligned: "wordAligned (nextOffset (header f))"
    and inside: "nextOffset (header f) \<le> fileSize f"
    and nowrap: "list_all (noWrap (fileSize f)) ops"
  shows "case session ndebug f ops of (tr, f') \<Rightarrow>
       sorted_wrt laterAllocation (allocations tr)
     \<and> list_all (\<lambda>(off, sz). wordAligned off \<and> unat off + unat sz \<le> unat (fileSize f))
          (allocations tr)
     \<and> unat (nextOffset (header f')) \<le> unat (fileSize f) + 7
     \<and> (wordAligned (fileSize f) \<longrightarrow>
           nextOffset (header f') \<le> fileSize f
         \<and> list_all (\<lambda>(off, sz). unat off + unat (alignRound sz) \<le> unat (fileSize f))
              (allocations tr))"
proof -
  obtain tr f' where se: "session ndebug f ops = (tr, f')" by (cases "session ndebug f ops")
  have inv: "allocInv f"
    using aligned inside by (simp add: allocInv_def word_le_nat_alt)
  from session_inv [OF inv nowrap se]
  have inv': "allocInv f'"
    and oks: "list_all (allocOK f f') (allocations tr)"
    and srt: "sorted_wrt laterAllocation (allocations tr)"
    by simp_all
  have a: "list_all (\<lambda>(off, sz). wordAligned off \<and> unat off + unat sz \<le> unat (fileSize f))
          (allocations tr)"
    using oks by (rule list_all_mono) (auto simp: allocOK_def)
  have b: "unat (nextOffset (header f')) \<le> unat (fileSize f) + 7"
    using inv' session_inv [OF inv nowrap se] by (simp add: allocInv_def)
  have c: "nextOffset (header f') \<le> fileSize f" if al: "wordAligned (fileSize f)"
  proof -
    have "unat (nextOffset (header f')) mod 8 = 0" "unat (fileSize f) mod 8 = 0"
      using inv' al by (simp_all add: allocInv_def aligned_unat)
    with b have "unat (nextOffset (header f')) \<le> unat (fileSize f)" by presburger
    then show ?thesis by (simp add: word_le_nat_alt)
  qed
  have d: "list_all (\<lambda>(off, sz). unat off + unat (alignRound sz) \<le> unat (fileSize f))
              (allocations tr)" if al: "wordAligned (fileSize f)"
    using oks
  proof (rule list_all_mono)
    fix x assume "allocOK f f' x"
    then have "unat (fst x) + unat (alignRound (snd x)) \<le> unat (nextOffset (header f'))"
      by (simp add: allocOK_def)
    also have "\<dots> \<le> unat (fileSize f)"
      using c [OF al] by (simp add: word_le_nat_alt)
    finally show "case x of (off, sz) \<Rightarrow> unat off + unat (alignRound sz) \<le> unat (fileSize f)"
      by (cases x) simp
  qed
  show ?thesis using se srt a b c d by simp
qed


theorem allocMem_session_offsets_witness:
  "wordAligned (nextOffset (header file0)) \<and> nextOffset (header file0) \<le> fileSize file0
   \<and> list_all (noWrap (fileSize file0))
        [AllocMem 9 True, AllocMem 0 False, AllocMem 4000 False, AllocMem 16 False]
   \<and> wordAligned (fileSize file0)
   \<and> allocations (fst (session True file0
          [AllocMem 9 True, AllocMem 0 False, AllocMem 4000 False, AllocMem 16 False]))
       = [(400, 9), (416, 0), (416, 16)]
   \<and> sorted_wrt laterAllocation [(400, 9), (416, 0), (416, 16)]
   \<and> nextOffset (header (snd (session True file0
          [AllocMem 9 True, AllocMem 0 False, AllocMem 4000 False, AllocMem 16 False])))
       \<le> fileSize file0"
  using allocMem_session_offsets [where f = file0 and ndebug = True
      and ops = "[AllocMem 9 True, AllocMem 0 False, AllocMem 4000 False, AllocMem 16 False]"]
  by (simp add: file0_def noWrap_def allocMem_def validateWriteAccess_def isReadOnly_def
        alignRound_def laterAllocation_def wordAligned_def)

text \<open>
  The claim as first stated fails: in a 4100-byte file with \<open>nextOffset = 4088\<close> a
  request of 9 bytes succeeds and moves \<open>nextOffset\<close> to 4104, beyond the file; and two
  requests of 0 bytes return the same offset.
\<close>

theorem allocMem_session_offsets_counterexample:
  "wordAligned (nextOffset (header file1)) \<and> nextOffset (header file1) \<le> fileSize file1
   \<and> fst (allocMem file1 9 False) = Inr 4088
   \<and> \<not> (4088 + alignRound 9 \<le> fileSize file1)
   \<and> \<not> (nextOffset (header (snd (allocMem file1 9 False))) \<le> fileSize file1)
   \<and> map fst (allocations (fst (session True file0 [AllocMem 0 False, AllocMem 0 False])))
       = [400, 400]"
  by (simp add: file0_def file1_def allocMem_def validateWriteAccess_def isReadOnly_def
        alignRound_def wordAligned_def)

lemma step_rootOffset:
  "step nd f op = (r, f1) \<Longrightarrow>
     rootOffset (header f1)
       = (if registersRoot (op, r) then nextOffset (header f) else rootOffset (header f))
     \<and> (registersRoot (op, r) \<longrightarrow> r = Inr (nextOffset (header f)))"
proof (cases op)
  case (AllocMem sz isRoot)
  assume st: "step nd f op = (r, f1)"
  show ?thesis
  proof (cases r)
    case (Inl e)
    with st AllocMem have "f1 = f" by (auto dest: allocMem_Inl)
    with Inl AllocMem show ?thesis by (simp add: registersRoot_def split: bool.splits)
  next
    case (Inr off)
    with st AllocMem have "allocMem f sz isRoot = (Inr off, f1)" by simp
    from allocMem_Inr [OF this] AllocMem Inr show ?thesis
      by (simp add: registersRoot_def split: bool.splits)
  qed
next
  case (ToPtr offset accessSize)
  assume "step nd f op = (r, f1)"
  with ToPtr show ?thesis
    by (auto simp: toPtr_def fetchIfNeeded_def registersRoot_def)
next
  case GetRootOffset
  assume "step nd f op = (r, f1)"
  with GetRootOffset show ?thesis by (auto simp: registersRoot_def)
qed

lemma session_rootOffset:
  "session nd f ops = (tr, f') \<Longrightarrow> \<not> list_ex registersRoot tr \<Longrightarrow>
     rootOffset (header f') = rootOffset (header f)"
proof (induction ops arbitrary: f tr)
  case Nil
  then show ?case by simp
next
  case (Cons op ops)
  obtain r f1 where st: "step nd f op = (r, f1)" by (cases "step nd f op")
  obtain tr1 where se: "session nd f1 ops = (tr1, f')" and tr: "tr = (op, r) # tr1"
    using Cons.prems(1) st by (auto split: prod.splits)
  from Cons.prems(2) tr have no: "\<not> registersRoot (op, r)" "\<not> list_ex registersRoot tr1"
    by simp_all
  from step_rootOffset [OF st] no(1) have "rootOffset (header f1) = rootOffset (header f)"
    by simp
  with Cons.IH [OF se no(2)] show ?case by simp
qed

text \<open>
  Claim C3, as amended. The only operation that changes \<open>rootOffset\<close> is a successful
  \<open>allocMem\<close> with \<open>isRoot = true\<close>, and it sets \<open>rootOffset\<close> to the offset it returns
  whether or not a root was registered before. A session without such a call leaves
  \<open>rootOffset\<close> as it was; in particular it remains \<open>MMAP_NULL_OFFSET\<close> if it was so
  at the start.
\<close>

theorem rootOffset_stability:
  "(case session ndebug f ops of (tr, f') \<Rightarrow>
      (\<not> list_ex registersRoot tr \<longrightarrow> rootOffset (header f') = rootOffset (header f))
    \<and> (\<not> list_ex registersRoot tr \<and> rootOffset (header f) = MMAP_NULL_OFFSET
         \<longrightarrow> rootOffset (header f') = MMAP_NULL_OFFSET))
   \<and> (case step ndebug f op of (r, f1) \<Rightarrow>
        rootOffset (header f1)
          = (if registersRoot (op, r) then nextOffset (header f) else rootOffset (header f))
        \<and> (if registersRoot (op, r) then r = Inr (nextOffset (header f)) else True))"
proof -
  obtain tr f' where se: "session ndebug f ops = (tr, f')" by (cases "session ndebug f ops")
  obtain r f1 where st: "step ndebug f op = (r, f1)" by (cases "step ndebug f op")
  show ?thesis
    using session_rootOffset [OF se] step_rootOffset [OF st] se st by auto
qed

theorem rootOffset_stability_witness:
  "\<not> list_ex registersRoot
       (fst (session True file0 [AllocMem 16 False, AllocMem 4000 True, ToPtr 400 8]))
   \<and> rootOffset (header file0) = MMAP_NULL_OFFSET
   \<and> rootOffset (header (snd (session True file0
         [AllocMem 16 False, AllocMem 4000 True, ToPtr 400 8]))) = MMAP_NULL_OFFSET
   \<and> registersRoot (AllocMem 16 True, fst (step True file0 (AllocMem 16 True)))
   \<and> step True file0 (AllocMem 16 True)
       = (Inr 400, file0\<lparr>header := (header file0)\<lparr>nextOffset := 416, rootOffset := 400\<rparr>\<rparr>)"
  using rootOffset_stability [where ndebug = True and f = file0
      and ops = "[AllocMem 16 False, AllocMem 4000 True, ToPtr 400 8]"
      and op = "AllocMem 16 True"]
  by (simp add: file0_def allocMem_def validateWriteAccess_def isReadOnly_def alignRound_def
        toPtr_def fetchIfNeeded_def registersRoot_def MMAP_NULL_OFFSET_def)

text \<open>
  The claim as first stated fails: a second \<open>allocMem\<close> with \<open>isRoot = true\<close> moves the
  registered root from 400 to 416.
\<close>

theorem rootOffset_stability_counterexample:
  "rootOffset (header (snd (session True file0 [AllocMem 16 True]))) = 400
   \<and> rootOffset (header (snd (session True file0 [AllocMem 16 True, AllocMem 16 True]))) = 416"
  by (simp add: file0_def allocMem_def validateWriteAccess_def isReadOnly_def alignRound_def)



section \<open>Coordinates\<close>


lemma inRange_i64: "inRange (i64 x)"
proof -
  have "0 \<le> (x + 2 ^ 63) mod (2 ^ 64 :: int)" by simp
  moreover have "(x + 2 ^ 63) mod (2 ^ 64 :: int) < 2 ^ 64"
    by (rule pos_mod_bound) simp
  ultimately show ?thesis by (simp add: inRange_def i64_def)
qed

section \<open>compatible\<close>




section \<open>flipBlocks\<close>











section \<open>computePSLInserts\<close>

















section \<open>liftBlockIntervals\<close>

lemma liftBlocksLoop_frame:
  "\<exists>s e pieces. liftBlocksLoop env orig L bs
     = L\<lparr>bedLine := (bedLine L)\<lparr>start_l := s, end_l := e\<rparr>,
         mappedBlocks := mappedBlocks L @ pieces\<rparr>"
proof (induction bs arbitrary: L)
  case Nil
  have "liftBlocksLoop env orig L []
     = L\<lparr>bedLine := (bedLine L)\<lparr>start_l := start_l (bedLine L), end_l := end_l (bedLine L)\<rparr>,
         mappedBlocks := mappedBlocks L @ []\<rparr>" by simp
  then show ?case by blast
next
  case (Cons blk rest)
  define s where "s = i64 (start_b blk + start_l orig)"
  define L1 where "L1 = L\<lparr>bedLine := (bedLine L)\<lparr>start_l := s, end_l := i64 (s + length_b blk)\<rparr>\<rparr>"
  define L2 where "L2 = (if end_l (bedLine L1) > start_l (bedLine L1)
                then L1\<lparr>mappedBlocks := mappedBlocks L1 @ liftInterval env L1\<rparr>
                else L1)"
  have step: "liftBlocksLoop env orig L (blk # rest) = liftBlocksLoop env orig L2 rest"
    by (simp add: L2_def L1_def s_def Let_def)
  obtain p1 where L2: "L2 = L\<lparr>bedLine := (bedLine L)\<lparr>start_l := s, end_l := i64 (s + length_b blk)\<rparr>,
       mappedBlocks := mappedBlocks L @ p1\<rparr>"
  proof (cases "end_l (bedLine L1) > start_l (bedLine L1)")
    case True
    then have "L2 = L\<lparr>bedLine := (bedLine L)\<lparr>start_l := s, end_l := i64 (s + length_b blk)\<rparr>,
       mappedBlocks := mappedBlocks L @ liftInterval env L1\<rparr>"
      by (simp add: L2_def L1_def)
    then show ?thesis by (rule that)
  next
    case False
    then have "L2 = L\<lparr>bedLine := (bedLine L)\<lparr>start_l := s, end_l := i64 (s + length_b blk)\<rparr>,
       mappedBlocks := mappedBlocks L @ []\<rparr>"
      by (simp add: L2_def L1_def)
    then show ?thesis by (rule that)
  qed
  from Cons.IH [of L2] obtain s' e' p2 where
    r: "liftBlocksLoop env orig L2 rest
     = L2\<lparr>bedLine := (bedLine L2)\<lparr>start_l := s', end_l := e'\<rparr>,
         mappedBlocks := mappedBlocks L2 @ p2\<rparr>" by blast
  have "liftBlocksLoop env orig L2 rest
     = L\<lparr>bedLine := (bedLine L)\<lparr>start_l := s', end_l := e'\<rparr>,
         mappedBlocks := mappedBlocks L @ (p1 @ p2)\<rparr>"
    unfolding r by (simp add: L2)
  then show ?case unfolding step by blast
qed

lemma liftBlockIntervals_eq:
  "\<exists>pieces. liftBlockIntervals env L
     = L\<lparr>bedLine := (bedLine L)\<lparr>blocks := sortBlocks env (blocks (bedLine L))\<rparr>,
         mappedBlocks := mappedBlocks L @ pieces\<rparr>"
proof -
  define L1 where "L1 = L\<lparr>bedLine := (bedLine L)\<lparr>blocks := sortBlocks env (blocks (bedLine L))\<rparr>\<rparr>"
  from liftBlocksLoop_frame [of env "bedLine L" L1 "blocks (bedLine L1)"]
  obtain s e pieces where
    l2: "liftBlocksLoop env (bedLine L) L1 (blocks (bedLine L1))
       = L1\<lparr>bedLine := (bedLine L1)\<lparr>start_l := s, end_l := e\<rparr>,
         mappedBlocks := mappedBlocks L1 @ pieces\<rparr>"
    by blast
  have res: "liftBlockIntervals env L
      = (let L2 = liftBlocksLoop env (bedLine L) L1 (blocks (bedLine L1))
         in L2\<lparr>bedLine := (bedLine L2)\<lparr>start_l := start_l (bedLine L),
                                        end_l := end_l (bedLine L)\<rparr>\<rparr>)"
    by (simp add: liftBlockIntervals_def Let_def L1_def)
  have "liftBlockIntervals env L
            = L\<lparr>bedLine := (bedLine L)\<lparr>blocks := sortBlocks env (blocks (bedLine L))\<rparr>,
                mappedBlocks := mappedBlocks L @ pieces\<rparr>"
    unfolding res l2 by (simp add: L1_def)
  then show ?thesis by blast
qed

text \<open>
  Claim C10. \<open>liftBlockIntervals\<close> leaves the record as it was but for its block list:
  \<open>_start\<close> and \<open>_end\<close> have their values from before the call and every other field
  is unchanged; the block list is the sorted one (ascending \<open>_start\<close>, a permutation of
  the list before the call), not the original order. Of the engine it changes, besides
  the record, only \<open>_mappedBlocks\<close>, by appending.
\<close>

theorem liftBlockIntervals_frame:
  assumes "sortsBlocks (sortBlocks env) (blocks (bedLine L))"
  shows "bedLine (liftBlockIntervals env L)
           = (bedLine L)\<lparr>blocks := sortBlocks env (blocks (bedLine L))\<rparr>
       \<and> start_l (bedLine (liftBlockIntervals env L)) = start_l (bedLine L)
       \<and> end_l (bedLine (liftBlockIntervals env L)) = end_l (bedLine L)
       \<and> sorted (map start_b (blocks (bedLine (liftBlockIntervals env L))))
       \<and> mset (blocks (bedLine (liftBlockIntervals env L))) = mset (blocks (bedLine L))
       \<and> (\<exists>pieces. liftBlockIntervals env L
            = L\<lparr>bedLine := (bedLine L)\<lparr>blocks := sortBlocks env (blocks (bedLine L))\<rparr>,
                mappedBlocks := mappedBlocks L @ pieces\<rparr>)"
proof -
  from liftBlockIntervals_eq [of env L] obtain pieces where
    eq: "liftBlockIntervals env L
            = L\<lparr>bedLine := (bedLine L)\<lparr>blocks := sortBlocks env (blocks (bedLine L))\<rparr>,
                mappedBlocks := mappedBlocks L @ pieces\<rparr>" by blast
  then have bl: "bedLine (liftBlockIntervals env L)
           = (bedLine L)\<lparr>blocks := sortBlocks env (blocks (bedLine L))\<rparr>" by simp
  show ?thesis using assms eq bl by (auto simp: sortsBlocks_def)
qed

theorem liftBlockIntervals_frame_witness:
  "sortsBlocks (sortBlocks env0) (blocks (bedLine engine0))
   \<and> blocks (bedLine engine0) = [\<lparr>start_b = 70, length_b = 30\<rparr>, \<lparr>start_b = 0, length_b = 30\<rparr>]
   \<and> bedLine (liftBlockIntervals env0 engine0)
       = (bedLine engine0)\<lparr>blocks := [\<lparr>start_b = 0, length_b = 30\<rparr>, \<lparr>start_b = 70, length_b = 30\<rparr>]\<rparr>
   \<and> mappedBlocks (liftBlockIntervals env0 engine0)
       = [piece 1100 1130 (CHR ''+'') 100, piece 1170 1200 (CHR ''+'') 170]"
proof -
  have pre: "sortsBlocks (sortBlocks env0) (blocks (bedLine engine0))"
    by (simp add: sortsBlocks_def env0_def engine0_def piece_def)
  have b: "blocks (bedLine engine0) = [\<lparr>start_b = 70, length_b = 30\<rparr>, \<lparr>start_b = 0, length_b = 30\<rparr>]"
    by (simp add: engine0_def)
  have s: "sortBlocks env0 (blocks (bedLine engine0))
      = [\<lparr>start_b = 0, length_b = 30\<rparr>, \<lparr>start_b = 70, length_b = 30\<rparr>]"
    by (simp add: env0_def engine0_def)
  have m: "mappedBlocks (liftBlockIntervals env0 engine0)
       = [piece 1100 1130 (CHR ''+'') 100, piece 1170 1200 (CHR ''+'') 170]"
    by code_simp
  from liftBlockIntervals_frame [OF pre]
  have "bedLine (liftBlockIntervals env0 engine0)
           = (bedLine engine0)\<lparr>blocks := sortBlocks env0 (blocks (bedLine engine0))\<rparr>"
    by blast
  then show ?thesis using pre b m unfolding s by blast
qed

section \<open>visitLine and convert\<close>

lemma assignBlocksToIntervals_frame:
  "assignBlocksToIntervals nd L = Inr L' \<Longrightarrow>
     missedSet L' = missedSet L \<and> cerr L' = cerr L \<and> srcGenome L' = srcGenome L
     \<and> outBedStream L' = outBedStream L \<and> outPSL L' = outPSL L
     \<and> outPSLWithName L' = outPSLWithName L \<and> bedLine L' = bedLine L"
  by (auto simp: assignBlocksToIntervals_def Let_def split: if_splits sum.splits)

lemma cleanResults_frame:
  "cleanResults nd L = Inr L' \<Longrightarrow>
     missedSet L' = missedSet L \<and> cerr L' = cerr L \<and> srcGenome L' = srcGenome L
     \<and> outBedStream L' = outBedStream L \<and> outPSL L' = outPSL L
     \<and> outPSLWithName L' = outPSLWithName L"
  by (auto simp: cleanResults_def split: if_splits sum.splits)

lemma liftBlockIntervals_fields:
  "missedSet (liftBlockIntervals env L) = missedSet L
   \<and> cerr (liftBlockIntervals env L) = cerr L
   \<and> srcGenome (liftBlockIntervals env L) = srcGenome L
   \<and> outBedStream (liftBlockIntervals env L) = outBedStream L"
proof -
  from liftBlockIntervals_eq [of env L] obtain pieces where
    "liftBlockIntervals env L
       = L\<lparr>bedLine := (bedLine L)\<lparr>blocks := sortBlocks env (blocks (bedLine L))\<rparr>,
           mappedBlocks := mappedBlocks L @ pieces\<rparr>" by blast
  then show ?thesis by simp
qed

lemma liftLine_frame:
  assumes "liftLine env L = Inr L'"
  shows "missedSet L' = missedSet L \<and> cerr L' = cerr L \<and> srcGenome L' = srcGenome L"
proof -
  define L4 where "L4 = L\<lparr>mappedBlocks := []\<rparr>"
  define L5 where "L5 = (if bedType (bedLine L4) \<le> 9
                then L4\<lparr>mappedBlocks := mappedBlocks L4 @ liftInterval env L4\<rparr>
                else liftBlockIntervals env L4)"
  have f5: "missedSet L5 = missedSet L \<and> cerr L5 = cerr L \<and> srcGenome L5 = srcGenome L"
    using liftBlockIntervals_fields [of env L4] by (simp add: L5_def L4_def)
  from assms obtain L6 L8 where
    a: "(if length (mappedBlocks L5) > 0 \<and> bedType (bedLine L5) > 9
               then assignBlocksToIntervals (NDEBUG env) L5 else Inr L5) = Inr L6"
    and c: "cleanResults (NDEBUG env)
              (if bedType (bedLine L6) \<le> 9 then writeBlocksAsIntervals L6 else L6) = Inr L8"
    and r: "L' = writeLineResults (L8\<lparr>outBedLines := sortBySrcStart (outBedLines L8)\<rparr>)"
    unfolding liftLine_def L4_def [symmetric] Let_def L5_def [symmetric]
    by (auto split: sum.splits)
  have f6: "missedSet L6 = missedSet L5 \<and> cerr L6 = cerr L5 \<and> srcGenome L6 = srcGenome L5"
    using a assignBlocksToIntervals_frame [of "NDEBUG env" L5 L6] by (auto split: if_splits)
  have f8: "missedSet L8 = missedSet L6 \<and> cerr L8 = cerr L6 \<and> srcGenome L8 = srcGenome L6"
    using cleanResults_frame [OF c] by (auto simp: writeBlocksAsIntervals_def split: if_splits)
  show ?thesis using f5 f6 f8 by (simp add: r writeLineResults_def)
qed

lemma visitLine_missing:
  assumes "getSequence (srcGenome L) (chrName line) = None"
  shows "\<exists>L'. visitLine env (L\<lparr>bedLine := line\<rparr>) = Inr L'
       \<and> outBedStream L' = outBedStream L \<and> outBedLines L' = []
       \<and> srcGenome L' = srcGenome L
       \<and> missedSet L' = insert (chrName line) (missedSet L)
       \<and> cerr L' = cerr L @ (if chrName line \<in> missedSet L then []
            else [UnableToFindSequence (chrName line) (genomeName (srcGenome L))])"
  using assms by (auto simp: visitLine_def Let_def expandToBed12_def insert_absorb)

lemma visitLine_known:
  assumes "getSequence (srcGenome L) (chrName line) = Some len"
    and "visitLine env (L\<lparr>bedLine := line\<rparr>) = Inr L'"
  shows "srcGenome L' = srcGenome L \<and> missedSet L' = missedSet L
       \<and> (\<exists>ws. cerr L' = cerr L @ ws \<and> missedNames ws = [])"
proof -
  define L1 where "L1 = (if (outPSL L \<or> outPSLWithName L) \<and> bedType line < 12
                then L\<lparr>bedLine := expandToBed12 line\<rparr> else L\<lparr>bedLine := line\<rparr>)"
  define L3 where "L3 = L1\<lparr>outBedLines := [], srcSequence := Some len\<rparr>"
  have c: "chrName (bedLine L1) = chrName line" "srcGenome L1 = srcGenome L"
    by (simp_all add: L1_def expandToBed12_def)
  have f3: "missedSet L3 = missedSet L" "cerr L3 = cerr L" "srcGenome L3 = srcGenome L"
    by (simp_all add: L3_def L1_def)
  have v: "visitLine env (L\<lparr>bedLine := line\<rparr>) =
       (if end_l (bedLine L3) > sint len
        then Inr (L3\<lparr>cerr := cerr L3
                    @ [SkippingInterval (end_l (bedLine L3)) (chrName (bedLine L3)) len]\<rparr>)
        else if bedType (bedLine L3) > 9 \<and> blocks (bedLine L3) = []
        then Inr (L3\<lparr>cerr := cerr L3 @ [SkippingZeroBlocks]\<rparr>)
        else liftLine env L3)"
    using assms(1) c unfolding visitLine_def Let_def L3_def
    by (simp add: L1_def expandToBed12_def)
  show ?thesis
  proof (cases "end_l (bedLine L3) > sint len")
    case True
    with v assms(2) have "L' = L3\<lparr>cerr := cerr L3
                    @ [SkippingInterval (end_l (bedLine L3)) (chrName (bedLine L3)) len]\<rparr>"
      by simp
    then show ?thesis using f3 by (simp add: missedNames_def)
  next
    case False
    note notlong = this
    show ?thesis
    proof (cases "bedType (bedLine L3) > 9 \<and> blocks (bedLine L3) = []")
      case True
      with v assms(2) notlong have "L' = L3\<lparr>cerr := cerr L3 @ [SkippingZeroBlocks]\<rparr>"
        by simp
      then show ?thesis using f3 by (simp add: missedNames_def)
    next
      case False
      with v assms(2) notlong have "liftLine env L3 = Inr L'" by simp
      from liftLine_frame [OF this] f3 show ?thesis by (simp add: missedNames_def)
    qed
  qed
qed

lemma missedNames_append: "missedNames (ws @ ws') = missedNames ws @ missedNames ws'"
  by (simp add: missedNames_def)

lemma unknownNames_Cons:
  "unknownNames g (line # rest) =
     (if getSequence g (chrName line) = None then insert (chrName line) (unknownNames g rest)
      else unknownNames g rest)"
  by (simp add: unknownNames_def)

lemma scan_missed:
  "scan env L ls = Inr L' \<Longrightarrow>
     srcGenome L' = srcGenome L
     \<and> missedSet L' = missedSet L \<union> unknownNames (srcGenome L) ls
     \<and> (\<exists>ws. cerr L' = cerr L @ ws \<and> distinct (missedNames ws)
            \<and> set (missedNames ws) = unknownNames (srcGenome L) ls - missedSet L)"
proof (induction ls arbitrary: L)
  case Nil
  then show ?case by (simp add: unknownNames_def missedNames_def)
next
  case (Cons line rest)
  show ?case
  proof (cases "getSequence (srcGenome L) (chrName line)")
    case None
    from visitLine_missing [OF None, of env] obtain L1 where
      v: "visitLine env (L\<lparr>bedLine := line\<rparr>) = Inr L1"
      and g: "srcGenome L1 = srcGenome L"
      and m: "missedSet L1 = insert (chrName line) (missedSet L)"
      and c: "cerr L1 = cerr L @ (if chrName line \<in> missedSet L then []
            else [UnableToFindSequence (chrName line) (genomeName (srcGenome L))])"
      by blast
    from Cons.prems v have "scan env L1 rest = Inr L'" by simp
    from Cons.IH [OF this] g m obtain ws where
      g': "srcGenome L' = srcGenome L"
      and m': "missedSet L' = insert (chrName line) (missedSet L) \<union> unknownNames (srcGenome L) rest"
      and c': "cerr L' = cerr L1 @ ws"
      and d: "distinct (missedNames ws)"
      and s: "set (missedNames ws)
          = unknownNames (srcGenome L) rest - insert (chrName line) (missedSet L)"
      by auto
    define w1 where "w1 = (if chrName line \<in> missedSet L then []
            else [UnableToFindSequence (chrName line) (genomeName (srcGenome L))])"
    have e: "cerr L' = cerr L @ (w1 @ ws)" using c c' by (simp add: w1_def)
    have mn: "missedNames (w1 @ ws)
        = (if chrName line \<in> missedSet L then [] else [chrName line]) @ missedNames ws"
      by (simp add: missedNames_append w1_def) (simp add: missedNames_def)
    have d2: "distinct (missedNames (w1 @ ws))"
      unfolding mn using d s by auto
    have s2: "set (missedNames (w1 @ ws)) = unknownNames (srcGenome L) (line # rest) - missedSet L"
      unfolding mn unknownNames_Cons using None s by auto
    have m2: "missedSet L' = missedSet L \<union> unknownNames (srcGenome L) (line # rest)"
      unfolding unknownNames_Cons using None m' by auto
    show ?thesis using g' m2 e d2 s2 by blast
  next
    case (Some len)
    from Cons.prems obtain L1 where
      v: "visitLine env (L\<lparr>bedLine := line\<rparr>) = Inr L1"
      and r: "scan env L1 rest = Inr L'"
      by (auto split: sum.splits)
    from visitLine_known [OF Some v] obtain w1 where
      g: "srcGenome L1 = srcGenome L" and m: "missedSet L1 = missedSet L"
      and c: "cerr L1 = cerr L @ w1" and n: "missedNames w1 = []"
      by blast
    from Cons.IH [OF r] g m obtain ws where
      g': "srcGenome L' = srcGenome L"
      and m': "missedSet L' = missedSet L \<union> unknownNames (srcGenome L) rest"
      and c': "cerr L' = cerr L1 @ ws"
      and d: "distinct (missedNames ws)"
      and s: "set (missedNames ws) = unknownNames (srcGenome L) rest - missedSet L"
      by auto
    have e: "cerr L' = cerr L @ (w1 @ ws)" using c c' by simp
    have mn: "missedNames (w1 @ ws) = missedNames ws"
      by (simp add: missedNames_append n)
    have u: "unknownNames (srcGenome L) (line # rest) = unknownNames (srcGenome L) rest"
      unfolding unknownNames_Cons using Some by simp
    show ?thesis using g' m' e d s unfolding u mn [symmetric] by blast
  qed
qed

text \<open>
  Claim C9. An input record whose chromosome name the source genome does not know makes
  \<open>visitLine\<close> return without error and without writing an output record; the name
  enters the warned-name set and the warning is printed only if the name was not in
  the set; the scan goes on with the next record. \<open>convert\<close> clears the set at the
  start, so in what a completed \<open>convert\<close> session adds to the diagnostic stream the
  names of the missing-sequence warnings are distinct and are exactly the names of the
  input records that the source genome does not know: one warning for each.
\<close>

theorem missing_chromosome:
  "(getSequence (srcGenome L) (chrName line) = None \<longrightarrow>
      (\<exists>L'. visitLine env (L\<lparr>bedLine := line\<rparr>) = Inr L'
         \<and> outBedStream L' = outBedStream L \<and> outBedLines L' = []
         \<and> missedSet L' = insert (chrName line) (missedSet L)
         \<and> cerr L' = cerr L @ (if chrName line \<in> missedSet L then []
              else [UnableToFindSequence (chrName line) (genomeName (srcGenome L))])
         \<and> scan env L (line # rest) = scan env L' rest))
   \<and> (convert env L srcG inBedStream tgtG outStream bedTy traverse psl_on pslWithName coalLimit
        = Inr L'' \<longrightarrow>
        (\<exists>ws. cerr L'' = cerr L @ ws \<and> distinct (missedNames ws)
           \<and> set (missedNames ws) = unknownNames srcG inBedStream))"
proof -
  have a: "\<exists>L'. visitLine env (L\<lparr>bedLine := line\<rparr>) = Inr L'
         \<and> outBedStream L' = outBedStream L \<and> outBedLines L' = []
         \<and> missedSet L' = insert (chrName line) (missedSet L)
         \<and> cerr L' = cerr L @ (if chrName line \<in> missedSet L then []
              else [UnableToFindSequence (chrName line) (genomeName (srcGenome L))])
         \<and> scan env L (line # rest) = scan env L' rest"
    if "getSequence (srcGenome L) (chrName line) = None"
  proof -
    from visitLine_missing [OF that, of env] obtain L' where
      v: "visitLine env (L\<lparr>bedLine := line\<rparr>) = Inr L'"
      and r: "outBedStream L' = outBedStream L" "outBedLines L' = []"
        "missedSet L' = insert (chrName line) (missedSet L)"
        "cerr L' = cerr L @ (if chrName line \<in> missedSet L then []
              else [UnableToFindSequence (chrName line) (genomeName (srcGenome L))])"
      by blast
    have "scan env L (line # rest) = scan env L' rest" by (simp add: v)
    with v r show ?thesis by blast
  qed
  have b: "\<exists>ws. cerr L'' = cerr L @ ws \<and> distinct (missedNames ws)
           \<and> set (missedNames ws) = unknownNames srcG inBedStream"
    if "convert env L srcG inBedStream tgtG outStream bedTy traverse psl_on pslWithName coalLimit
        = Inr L''"
    using scan_missed [OF that [unfolded convert_def]] by simp
  show ?thesis using a b by blast
qed

theorem missing_chromosome_witness:
  "getSequence (srcGenome engine0) (chrName lineX) = None
   \<and> missedSet (projr (visitLine env0 (engine0\<lparr>bedLine := lineX\<rparr>))) = {''chrX''}
   \<and> outBedStream (projr (visitLine env0 (engine0\<lparr>bedLine := lineX\<rparr>))) = []
   \<and> \<not> isl session0
   \<and> cerr (projr session0) = [UnableToFindSequence ''chrX'' ''src'']
   \<and> distinct (missedNames (cerr (projr session0)))
   \<and> set (missedNames (cerr (projr session0))) = {''chrX''}
   \<and> length (outBedStream (projr session0)) = 1"
proof -
  have n: "getSequence (srcGenome engine0) (chrName lineX) = None" by code_simp
  have v: "missedSet (projr (visitLine env0 (engine0\<lparr>bedLine := lineX\<rparr>))) = {''chrX''}"
    "outBedStream (projr (visitLine env0 (engine0\<lparr>bedLine := lineX\<rparr>))) = []"
    by code_simp+
  have i: "\<not> isl session0" by code_simp
  then have s: "session0 = Inr (projr session0)" by simp
  have c: "cerr (projr session0) = [UnableToFindSequence ''chrX'' ''src'']" by code_simp
  have l: "length (outBedStream (projr session0)) = 1" by code_simp
  have u: "unknownNames (srcGenome engine0) [lineX, bedLine engine0, lineX] = {''chrX''}"
    by code_simp
  have e: "cerr engine0 = []" by code_simp
  from missing_chromosome [where env = env0 and L = engine0 and srcG = "srcGenome engine0"
      and inBedStream = "[lineX, bedLine engine0, lineX]" and tgtG = "tgtGenome engine0"
      and outStream = "[]" and bedTy = 12 and traverse = True and psl_on = False
      and pslWithName = False and coalLimit = None and L'' = "projr session0"
      and line = lineX and rest = "[]"]
    s [unfolded session0_def, folded session0_def]
  have "distinct (missedNames (cerr (projr session0)))
      \<and> set (missedNames (cerr (projr session0))) = {''chrX''}"
    unfolding session0_def [symmetric] u e by auto
  then show ?thesis using n v i c l by blast
qed

section \<open>assignBlocksToIntervals\<close>














end
